theory Spec2Isabelle
  imports Main "HOL-Library.Sublist"
begin

section \<open>Python values used by pdf2latex.py\<close>

text \<open>
  Python integers are unbounded, so they are \<open>int\<close>; \<open>//\<close> is floor division, which is
  \<open>div\<close> on \<open>int\<close>. Strings are \<open>string\<close>. The backslash cannot be written inside a
  string literal, so it is \<open>CHR 0x5C\<close>; a line feed is \<open>\<newline>\<close>.
\<close>

datatype py_exception = ZeroDivisionError

text \<open>\<open>str(n)\<close> for an integer: decimal digits, with a leading minus sign below zero.\<close>

definition digit :: "nat \<Rightarrow> char" where
  "digit d = char_of (48 + d)"

function str_nat :: "nat \<Rightarrow> string" where
  "str_nat n = (if n < 10 then [digit n] else str_nat (n div 10) @ [digit (n mod 10)])"
  by pat_completeness auto
termination
  by (relation "measure id") auto

declare str_nat.simps [simp del]

definition str :: "int \<Rightarrow> string" where
  "str i = (if i < 0 then CHR ''-'' # str_nat (nat (- i)) else str_nat (nat i))"

text \<open>\<open>sep.join(xs)\<close>.\<close>

fun str_join :: "string \<Rightarrow> string list \<Rightarrow> string" where
  "str_join sep [] = []"
| "str_join sep [x] = x"
| "str_join sep (x # y # ys) = x @ sep @ str_join sep (y # ys)"

text \<open>
  \<open>xs[i:j]\<close>: a negative bound counts from the end, every bound is clamped to
  \<open>[0, len(xs)]\<close>, and the slice is empty when the lower bound is not below the upper.
\<close>

definition py_slice :: "'a list \<Rightarrow> int \<Rightarrow> int \<Rightarrow> 'a list" where
  "py_slice xs i j =
     (let n = int (length xs);
          lo = (if i < 0 then max (i + n) 0 else min i n);
          hi = (if j < 0 then max (j + n) 0 else min j n)
      in take (nat (hi - lo)) (drop (nat lo) xs))"

text \<open>\<open>enumerate(xs)\<close> and \<open>range(n)\<close> (empty when \<open>n \<le> 0\<close>).\<close>

definition enumerate0 :: "'a list \<Rightarrow> (int \<times> 'a) list" where
  "enumerate0 xs = zip (map int [0..<length xs]) xs"

definition range_py :: "int \<Rightarrow> int list" where
  "range_py n = map int [0..<nat n]"

section \<open>What a run does to the outside world\<close>

text \<open>
  A run is observed through the events it causes, in order: each invocation of the
  transcription function with the 0-based page number it was given and what the body of its
  \<open>try\<close> block did (\<open>Inr text\<close>: the first text block of the response; \<open>Inl msg\<close>: an
  \<open>Exception\<close> whose \<open>str\<close> is \<open>msg\<close>), each \<open>time.sleep(d)\<close>, and each file written
  with its path and content. Console output and the progress bar are not modelled, and
  opening a file for writing is taken to succeed.
\<close>

datatype event =
    Transcribe int "string + string"
  | Sleep int
  | WriteFile string string

text \<open>
  The remote model is a parameter: its answer may depend on the image, the page number and
  everything that happened before (the events so far).
\<close>

type_synonym 'img client = "event list \<Rightarrow> 'img \<Rightarrow> int \<Rightarrow> string + string"

section \<open>check\_environment\<close>

definition check_environment :: "string option \<Rightarrow> bool" where
  "check_environment api_key =
     (let missing_vars = (case api_key of
                            None \<Rightarrow> [''ANTHROPIC_API_KEY'']
                          | Some k \<Rightarrow> (if k = [] then [''ANTHROPIC_API_KEY''] else []))
      in if missing_vars = [] then True else False)"

section \<open>extract\_pages\_as\_images\<close>

text \<open>
  \<open>fitz.open\<close> either raises or gives the document, a list of pages; rendering one page
  (\<open>load_page\<close>, \<open>get_pixmap\<close>, \<open>Image.frombytes\<close>) at a DPI either raises or gives an
  image. Both are parameters. The loop appends image after image; any exception inside the
  \<open>try\<close> block discards what was collected and returns the empty list.
\<close>

fun render_loop :: "('pg \<Rightarrow> int \<Rightarrow> string + 'img) \<Rightarrow> int \<Rightarrow> 'pg list \<Rightarrow> 'img list
    \<Rightarrow> string + 'img list" where
  "render_loop render dpi [] images = Inr images"
| "render_loop render dpi (page # rest) images =
     (case render page dpi of
        Inl e \<Rightarrow> Inl e
      | Inr img \<Rightarrow> render_loop render dpi rest (images @ [img]))"

definition extract_pages_as_images ::
  "(string \<Rightarrow> string + 'pg list) \<Rightarrow> ('pg \<Rightarrow> int \<Rightarrow> string + 'img) \<Rightarrow> string \<Rightarrow> int \<Rightarrow> 'img list" where
  "extract_pages_as_images fitz_open render pdf_path dpi =
     (case fitz_open pdf_path of
        Inl e \<Rightarrow> []
      | Inr doc \<Rightarrow>
          (case render_loop render dpi doc [] of
             Inl e \<Rightarrow> []
           | Inr images \<Rightarrow> images))"

section \<open>translate\_and\_convert\_to\_latex\_with\_claude\_vision\<close>

text \<open>
  The value returned for page \<open>page_num\<close>, given what the \<open>try\<close> block did: the response
  text as it is, or the error comment built by the \<open>except\<close> branch.
\<close>

definition transcription_result :: "int \<Rightarrow> string + string \<Rightarrow> string" where
  "transcription_result page_num r =
     (case r of
        Inr text \<Rightarrow> text
      | Inl e \<Rightarrow> ''% Error processing page '' @ str (page_num + 1) @ ''\<newline>% '' @ e
                 @ ''\<newline>\<newline>'')"

definition translate_and_convert_to_latex_with_claude_vision ::
  "'img client \<Rightarrow> 'img \<Rightarrow> int \<Rightarrow> event list \<Rightarrow> string \<times> event list" where
  "translate_and_convert_to_latex_with_claude_vision claude img page_num tr =
     (let r = claude tr img page_num
      in (transcription_result page_num r, tr @ [Transcribe page_num r]))"

section \<open>combine\_latex\_pages\<close>

definition preamble :: string where
  "preamble = concat
     [''\<newline>'',
      CHR 0x5C # ''documentclass{amsart}\<newline>'',
      CHR 0x5C # ''usepackage[utf8]{inputenc}\<newline>'',
      CHR 0x5C # ''usepackage[T1]{fontenc}\<newline>'',
      CHR 0x5C # ''usepackage{graphicx}\<newline>'',
      CHR 0x5C # ''usepackage{amsmath}\<newline>'',
      CHR 0x5C # ''usepackage{amssymb}\<newline>'',
      CHR 0x5C # ''usepackage{hyperref}\<newline>'',
      CHR 0x5C # ''usepackage{natbib}\<newline>'',
      CHR 0x5C # ''usepackage{booktabs}\<newline>'',
      CHR 0x5C # ''usepackage{float}\<newline>'',
      CHR 0x5C # ''usepackage{array}\<newline>'',
      CHR 0x5C # ''usepackage{multirow}\<newline>'',
      CHR 0x5C # ''usepackage{longtable}\<newline>'',
      CHR 0x5C # ''usepackage{mathrsfs}\<newline>'',
      ''\<newline>'',
      ''\<newline>'',
      CHR 0x5C # ''begin{document}\<newline>'',
      ''\<newline>'',
      CHR 0x5C # ''maketitle\<newline>'']"

definition page_separator :: string where
  "page_separator = ''\<newline>\<newline>% ===== NEW PAGE =====\<newline>\<newline>''"

definition postamble :: string where
  "postamble = ''\<newline>\<newline>'' @ CHR 0x5C # ''end{document}''"

definition combine_latex_pages :: "string list \<Rightarrow> string" where
  "combine_latex_pages latex_pages =
     (let content = str_join page_separator latex_pages
      in preamble @ content @ postamble)"

section \<open>main\<close>

text \<open>
  The parsed command line (\<open>args\<close>), with the defaults of the parser: \<open>None\<close> for
  \<open>--output\<close>, \<open>--end-page\<close> and \<open>--batch-size\<close> when they are not given.
\<close>

record args =
  arg_pdf_path :: string
  arg_output :: "string option"
  arg_dpi :: int
  arg_start_page :: int
  arg_end_page :: "int option"
  arg_batch_size :: "int option"

text \<open>
  What the program reads from its surroundings: the environment variable, the file system,
  the two \<open>os.path\<close> functions it calls (\<open>path_splitext p\<close> is the pair returned by
  \<open>os.path.splitext(p)\<close>), the PDF library and the remote model.
\<close>

record ('pg, 'img) env =
  ANTHROPIC_API_KEY :: "string option"
  path_exists :: "string \<Rightarrow> bool"
  path_basename :: "string \<Rightarrow> string"
  path_splitext :: "string \<Rightarrow> string \<times> string"
  fitz_open :: "string \<Rightarrow> string + 'pg list"
  render_page :: "'pg \<Rightarrow> int \<Rightarrow> string + 'img"
  claude_client :: "'img client"

text \<open>
  How a run ends: one of the five \<open>sys.exit(1)\<close> calls of \<open>main\<close> (named by the place it
  is at), a normal return, or an exception nobody catches.
\<close>

datatype exit_site =
    MissingEnvironment
  | FileNotFound
  | NoImages
  | StartPageOutOfRange
  | EndPageOutOfRange

datatype status =
    SysExit int exit_site
  | Returned
  | Uncaught py_exception

fun exit_code :: "status \<Rightarrow> int" where
  "exit_code (SysExit c site) = c"
| "exit_code Returned = 0"
| "exit_code (Uncaught e) = 1"

text \<open>
  Four expressions of \<open>main\<close> that the statements below name: the output path (lines 167 to
  169), the end page (line 178), the batch size \<open>args.batch_size or len(selected_images)\<close>,
  where \<open>None\<close> and \<open>0\<close> are the falsy values (line 191), and the name of the intermediate
  file of a batch (line 219).
\<close>

definition output_path :: "('pg, 'img) env \<Rightarrow> args \<Rightarrow> string" where
  "output_path env args =
     (case arg_output args of
        None \<Rightarrow> fst (path_splitext env (path_basename env (arg_pdf_path args)))
                 @ ''_translated_en.tex''
      | Some p \<Rightarrow> p)"

definition end_page_of :: "args \<Rightarrow> 'img list \<Rightarrow> int" where
  "end_page_of args images =
     (case arg_end_page args of
        Some e \<Rightarrow> e
      | None \<Rightarrow> int (length images) - 1)"

definition batch_size_of :: "args \<Rightarrow> 'img list \<Rightarrow> int" where
  "batch_size_of args selected_images =
     (case arg_batch_size args of
        None \<Rightarrow> int (length selected_images)
      | Some b \<Rightarrow> (if b = 0 then int (length selected_images) else b))"

definition batch_output :: "('pg, 'img) env \<Rightarrow> string \<Rightarrow> int \<Rightarrow> string" where
  "batch_output env output batch_idx =
     fst (path_splitext env output) @ ''_batch'' @ str (batch_idx + 1) @ ''.tex''"

text \<open>The loop over the pages of one batch (lines 205 to 213).\<close>

fun page_loop :: "'img client \<Rightarrow> int \<Rightarrow> int \<Rightarrow> (int \<times> 'img) list
    \<Rightarrow> string list \<times> event list \<Rightarrow> string list \<times> event list" where
  "page_loop claude start_page batch_start [] (latex_pages, tr) = (latex_pages, tr)"
| "page_loop claude start_page batch_start ((i, img) # rest) (latex_pages, tr) =
     (let actual_page = start_page + batch_start + i;
          (latex_content, tr1) =
             translate_and_convert_to_latex_with_claude_vision claude img actual_page tr;
          tr2 = tr1 @ [Sleep 1]
      in page_loop claude start_page batch_start rest (latex_pages @ [latex_content], tr2))"

text \<open>The loop over the batches (lines 196 to 223).\<close>

fun batch_loop :: "('pg, 'img) env \<Rightarrow> string \<Rightarrow> int \<Rightarrow> 'img list \<Rightarrow> int \<Rightarrow> int \<Rightarrow> int list
    \<Rightarrow> string list \<times> event list \<Rightarrow> string list \<times> event list" where
  "batch_loop env output start_page selected_images batch_size num_batches []
       (all_latex_pages, tr) = (all_latex_pages, tr)"
| "batch_loop env output start_page selected_images batch_size num_batches
       (batch_idx # rest) (all_latex_pages, tr) =
     (let batch_start = batch_idx * batch_size;
          batch_end = min ((batch_idx + 1) * batch_size) (int (length selected_images));
          batch_images = py_slice selected_images batch_start batch_end;
          (latex_pages, tr1) =
             page_loop (claude_client env) start_page batch_start (enumerate0 batch_images)
               ([], tr);
          tr2 = (if num_batches > 1
                 then tr1 @ [WriteFile (batch_output env output batch_idx)
                                       (combine_latex_pages latex_pages)]
                 else tr1)
      in batch_loop env output start_page selected_images batch_size num_batches rest
           (all_latex_pages @ latex_pages, tr2))"

definition main :: "('pg, 'img) env \<Rightarrow> args \<Rightarrow> status \<times> event list" where
  "main env args =
     (if \<not> check_environment (ANTHROPIC_API_KEY env) then (SysExit 1 MissingEnvironment, [])
      else if \<not> path_exists env (arg_pdf_path args) then (SysExit 1 FileNotFound, [])
      else
        let output = output_path env args;
            images = extract_pages_as_images (fitz_open env) (render_page env)
                       (arg_pdf_path args) (arg_dpi args)
        in if images = [] then (SysExit 1 NoImages, [])
        else
          let start_page = arg_start_page args;
              end_page = end_page_of args images
          in if start_page < 0 \<or> int (length images) \<le> start_page
             then (SysExit 1 StartPageOutOfRange, [])
          else if end_page < start_page \<or> int (length images) \<le> end_page
             then (SysExit 1 EndPageOutOfRange, [])
          else
            let selected_images = py_slice images start_page (end_page + 1);
                batch_size = batch_size_of args selected_images
            in if batch_size = 0 then (Uncaught ZeroDivisionError, [])
            else
              let num_batches = (int (length selected_images) + batch_size - 1) div batch_size;
                  (all_latex_pages, tr) =
                     batch_loop env output start_page selected_images batch_size num_batches
                       (range_py num_batches) ([], []);
                  full_latex = combine_latex_pages all_latex_pages
              in (Returned, tr @ [WriteFile output full_latex]))"

text \<open>
  The batch partition: the page numbers that the batch with index \<open>batch_idx\<close> hands to the
  transcription function (lines 197 to 206: \<open>actual_page\<close> for every element of
  \<open>enumerate(batch_images)\<close>), and the list of these for every batch of the loop, with the
  batch size and the number of batches computed as in lines 191 and 192.
\<close>

definition batch_pages :: "int \<Rightarrow> 'img list \<Rightarrow> int \<Rightarrow> int \<Rightarrow> int list" where
  "batch_pages start_page selected_images batch_size batch_idx =
     (let batch_start = batch_idx * batch_size;
          batch_end = min ((batch_idx + 1) * batch_size) (int (length selected_images));
          batch_images = py_slice selected_images batch_start batch_end
      in map (\<lambda>(i, img). start_page + batch_start + i) (enumerate0 batch_images))"

definition batch_partition :: "int \<Rightarrow> 'img list \<Rightarrow> args \<Rightarrow> py_exception + int list list" where
  "batch_partition start_page selected_images args =
     (let batch_size = batch_size_of args selected_images
      in if batch_size = 0 then Inl ZeroDivisionError
         else
           let num_batches = (int (length selected_images) + batch_size - 1) div batch_size
           in Inr (map (batch_pages start_page selected_images batch_size) (range_py num_batches)))"

section \<open>Observations of a run\<close>

text \<open>
  The calls of the transcription function found in a list of events, with their outcomes;
  the page numbers they were given; the fragments they returned; the files written; and the
  pacing: every call is followed at once by a sleep of at least one time unit. A sleep is the
  only thing that is taken to let time pass, so the durations slept between two calls bound
  the time between them from below.
\<close>

fun requests :: "event list \<Rightarrow> (int \<times> (string + string)) list" where
  "requests [] = []"
| "requests (Transcribe k r # es) = (k, r) # requests es"
| "requests (Sleep d # es) = requests es"
| "requests (WriteFile p c # es) = requests es"

definition transcribed_pages :: "event list \<Rightarrow> int list" where
  "transcribed_pages tr = map fst (requests tr)"

definition fragments :: "event list \<Rightarrow> string list" where
  "fragments tr = map (\<lambda>(k, r). transcription_result k r) (requests tr)"

fun writes :: "event list \<Rightarrow> (string \<times> string) list" where
  "writes [] = []"
| "writes (WriteFile p c # es) = (p, c) # writes es"
| "writes (Transcribe k r # es) = writes es"
| "writes (Sleep d # es) = writes es"

fun paced :: "event list \<Rightarrow> bool" where
  "paced [] = True"
| "paced [Transcribe k r] = False"
| "paced (Transcribe k r # Sleep d # es) = (1 \<le> d \<and> paced es)"
| "paced (Transcribe k r # Transcribe k' r' # es) = False"
| "paced (Transcribe k r # WriteFile p c # es) = False"
| "paced (Sleep d # es) = paced es"
| "paced (WriteFile p c # es) = paced es"

section \<open>A concrete run\<close>

text \<open>
  The scenario of the specification: a document of three pages, rendered without failure
  (an image is identified with the number of its page), an output file \<open>out.tex\<close>, the page
  range 0 to 2 and a batch size of 2. The remote model fails on the page with index 1 and
  answers every other page with a short text. \<open>os.path.splitext\<close> is given on paths that end
  in an extension of three letters, the only ones it is applied to here.
\<close>

definition example_client :: "nat client" where
  "example_client tr img page_num =
     (if page_num = 1 then Inl ''timeout'' else Inr (''page '' @ str page_num))"

definition example_env :: "(nat, nat) env" where
  "example_env =
     \<lparr> ANTHROPIC_API_KEY = Some ''key'',
       path_exists = (\<lambda>p. True),
       path_basename = (\<lambda>p. p),
       path_splitext = (\<lambda>p. (take (length p - 4) p, drop (length p - 4) p)),
       fitz_open = (\<lambda>p. Inr [0, 1, 2]),
       render_page = (\<lambda>pg dpi. Inr pg),
       claude_client = example_client \<rparr>"

definition example_args :: args where
  "example_args =
     \<lparr> arg_pdf_path = ''in.pdf'',
       arg_output = Some ''out.tex'',
       arg_dpi = 300,
       arg_start_page = 0,
       arg_end_page = Some 2,
       arg_batch_size = Some 2 \<rparr>"

text \<open>The same document when the second page cannot be rendered.\<close>

definition broken_env :: "(nat, nat) env" where
  "broken_env =
     example_env \<lparr> render_page := (\<lambda>pg dpi. if pg = 1 then Inl ''cannot render'' else Inr pg) \<rparr>"

section \<open>The events of a run\<close>

subsection \<open>Observations distribute over concatenation\<close>

lemma requests_append: "requests (a @ b) = requests a @ requests b"
  by (induction a rule: requests.induct) simp_all

lemma writes_append: "writes (a @ b) = writes a @ writes b"
  by (induction a rule: writes.induct) simp_all

lemma transcribed_pages_append: "transcribed_pages (a @ b) = transcribed_pages a @ transcribed_pages b"
  by (simp add: transcribed_pages_def requests_append)

lemma fragments_append: "fragments (a @ b) = fragments a @ fragments b"
  by (simp add: fragments_def requests_append)

lemma paced_append: "paced a \<Longrightarrow> paced b \<Longrightarrow> paced (a @ b)"
  by (induction a rule: paced.induct) simp_all

lemma length_fragments: "length (fragments tr) = length (transcribed_pages tr)"
  by (simp add: fragments_def transcribed_pages_def)

subsection \<open>The page loop\<close>

text \<open>
  Whatever the remote model does, the page loop calls the transcription function once for
  every image, with consecutive page numbers, sleeps after every call, writes no file, and
  collects exactly the fragments of its calls.
\<close>

lemma page_loop_events:
  "page_loop claude sp bs (zip (map int [i0..<i0 + length imgs]) imgs) (lp, tr) = (lp', tr') \<Longrightarrow>
   \<exists>new. tr' = tr @ new \<and> transcribed_pages new = map (\<lambda>i. sp + bs + int i) [i0..<i0 + length imgs]
      \<and> lp' = lp @ fragments new \<and> writes new = [] \<and> paced new"
proof (induction imgs arbitrary: i0 lp tr)
  case Nil
  then show ?case by (simp add: transcribed_pages_def fragments_def)
next
  case (Cons img imgs)
  let ?r = "claude tr img (sp + bs + int i0)"
  let ?step = "[Transcribe (sp + bs + int i0) ?r, Sleep 1]"
  have idx: "[i0..<i0 + length (img # imgs)] = i0 # [Suc i0..<Suc i0 + length imgs]"
    using upt_conv_Cons[of i0 "i0 + length (img # imgs)"] by simp
  from Cons.prems have
    "page_loop claude sp bs (zip (map int [Suc i0..<Suc i0 + length imgs]) imgs)
       (lp @ [transcription_result (sp + bs + int i0) ?r], tr @ ?step) = (lp', tr')"
    unfolding idx
    by (simp del: upt_Suc add: translate_and_convert_to_latex_with_claude_vision_def Let_def)
  from Cons.IH[OF this] obtain new where new:
    "tr' = (tr @ ?step) @ new"
    "transcribed_pages new = map (\<lambda>i. sp + bs + int i) [Suc i0..<Suc i0 + length imgs]"
    "lp' = (lp @ [transcription_result (sp + bs + int i0) ?r]) @ fragments new"
    "writes new = []" "paced new"
    by blast
  show ?case
    unfolding idx
    apply (rule exI[of _ "?step @ new"])
    using new by (simp del: upt_Suc add: transcribed_pages_def fragments_def)
qed

lemma page_loop_enumerate0:
  assumes "page_loop claude sp bs (enumerate0 imgs) ([], tr) = (lp', tr')"
  shows "\<exists>new. tr' = tr @ new \<and> transcribed_pages new = map (\<lambda>i. sp + bs + int i) [0..<length imgs]
      \<and> lp' = fragments new \<and> writes new = [] \<and> paced new"
  using page_loop_events[of claude sp bs 0 imgs "[]" tr lp' tr'] assms
  by (simp add: enumerate0_def)

subsection \<open>Slices and page numbers of a batch\<close>

lemma py_slice_batch:
  assumes "0 < b"
  shows "py_slice sel (int j * int b) (min ((int j + 1) * int b) (int (length sel)))
         = take b (drop (j * b) sel)"
proof (cases "j * b \<le> length sel")
  case True
  then have lo: "min (int j * int b) (int (length sel)) = int (j * b)"
    by (simp add: min_def flip: of_nat_mult)
  have hi: "min (min ((int j + 1) * int b) (int (length sel))) (int (length sel))
            = int (min (j * b + b) (length sel))"
    by (simp add: min_def algebra_simps flip: of_nat_mult of_nat_add)
  have "take (min (j * b + b) (length sel) - j * b) (drop (j * b) sel) = take b (drop (j * b) sel)"
    using True by (simp add: min_def)
  then show ?thesis
    unfolding py_slice_def Let_def
    using lo hi by (simp add: nat_diff_distrib' flip: of_nat_mult)
next
  case False
  then have lo: "min (int j * int b) (int (length sel)) = int (length sel)"
    by (simp add: min_def flip: of_nat_mult)
  show ?thesis
    unfolding py_slice_def Let_def
    using False lo by (simp flip: of_nat_mult)
qed

lemma batch_pages_upt:
  "map (\<lambda>i. sp + int k * int b + int i) [0..<length (take b (drop (k * b) sel))]
   = map (\<lambda>i. sp + int i) [k * b..<min (k * b + b) (length sel)]"
proof -
  have "[k * b..<min (k * b + b) (length sel)] = [k * b..<min b (length sel - k * b) + k * b]"
  proof (cases "k * b \<le> length sel")
    case True
    then have "min (k * b + b) (length sel) = min b (length sel - k * b) + k * b"
      by (auto simp: min_def)
    then show ?thesis by simp
  next
    case False
    then show ?thesis by simp
  qed
  also have "\<dots> = map (\<lambda>i. i + k * b) [0..<length (take b (drop (k * b) sel))]"
    by (simp only: map_add_upt length_take length_drop min.commute)
  finally show ?thesis by (simp add: o_def algebra_simps)
qed

lemma take_first_batch:
  "length F1 \<le> b \<Longrightarrow> length F1 = b \<or> F2 = [] \<Longrightarrow> take b (F1 @ F2) = F1"
  by auto

lemma take_later_batch:
  assumes "k < j" "length F1 \<le> b" "length F1 = b \<or> F2 = []"
  shows "take b (drop ((j - k) * b) (F1 @ F2)) = take b (drop ((j - Suc k) * b) F2)"
proof -
  from assms(1) have jk: "(j - k) * b = b + (j - Suc k) * b"
    by (metis Suc_diff_Suc mult_Suc)
  from assms(3) show ?thesis
  proof
    assume "length F1 = b"
    then show ?thesis by (simp add: jk)
  next
    assume "F2 = []"
    then show ?thesis using assms(2) by (simp add: jk)
  qed
qed

lemma map_enumerate0: "map (\<lambda>(i, img). f i) (enumerate0 xs) = map (\<lambda>i. f (int i)) [0..<length xs]"
proof -
  have "map (\<lambda>(i, img). f i) (enumerate0 xs) = map f (map fst (enumerate0 xs))"
    by (simp add: o_def case_prod_unfold)
  also have "map fst (enumerate0 xs) = map int [0..<length xs]"
    by (simp add: enumerate0_def)
  finally show ?thesis by (simp add: o_def)
qed

lemma batch_pages_enumerate:
  "batch_pages sp sel bsz j =
     map (\<lambda>i. sp + j * bsz + int i)
       [0..<length (py_slice sel (j * bsz) (min ((j + 1) * bsz) (int (length sel))))]"
  unfolding batch_pages_def Let_def by (rule map_enumerate0)

lemma batch_pages_pos:
  assumes "0 < b"
  shows "batch_pages sp sel (int b) (int k) = map (\<lambda>i. sp + int i) [k * b..<min (k * b + b) (length sel)]"
  unfolding batch_pages_enumerate py_slice_batch[OF assms] by (rule batch_pages_upt)

subsection \<open>The batch loop\<close>

lemma batch_loop_general:
  "batch_loop env out sp sel bsz NB idxs (alp, tr) = (alp', tr') \<Longrightarrow>
   \<exists>new. tr' = tr @ new
      \<and> transcribed_pages new = concat (map (batch_pages sp sel bsz) idxs)
      \<and> alp' = alp @ fragments new
      \<and> map fst (writes new)
          = (if 1 < NB then map (\<lambda>j. batch_output env out j) idxs else [])
      \<and> paced new"
proof (induction idxs arbitrary: alp tr)
  case Nil
  then show ?case by (simp add: transcribed_pages_def fragments_def)
next
  case (Cons j idxs)
  let ?imgs = "py_slice sel (j * bsz) (min ((j + 1) * bsz) (int (length sel)))"
  obtain lp1 tr1 where pl: "page_loop (claude_client env) sp (j * bsz) (enumerate0 ?imgs) ([], tr) = (lp1, tr1)"
    by (cases "page_loop (claude_client env) sp (j * bsz) (enumerate0 ?imgs) ([], tr)") 
  from page_loop_enumerate0[OF pl] obtain new1 where new1:
    "tr1 = tr @ new1"
    "transcribed_pages new1 = map (\<lambda>i. sp + j * bsz + int i) [0..<length ?imgs]"
    "lp1 = fragments new1" "writes new1 = []" "paced new1"
    by blast
  let ?w = "if 1 < NB then [WriteFile (batch_output env out j)
                              (combine_latex_pages lp1)] else []"
  from Cons.prems pl have
    "batch_loop env out sp sel bsz NB idxs (alp @ lp1, tr1 @ ?w) = (alp', tr')"
    by (simp add: Let_def split: if_splits)
  from Cons.IH[OF this] obtain new2 where new2:
    "tr' = (tr1 @ ?w) @ new2"
    "transcribed_pages new2 = concat (map (batch_pages sp sel bsz) idxs)"
    "alp' = (alp @ lp1) @ fragments new2"
    "map fst (writes new2)
       = (if 1 < NB then map (\<lambda>j. batch_output env out j) idxs else [])"
    "paced new2"
    by blast
  have w: "transcribed_pages ?w = []" "fragments ?w = []" "paced ?w"
    by (simp_all add: transcribed_pages_def fragments_def)
  show ?case
  proof (intro exI[of _ "new1 @ ?w @ new2"] conjI)
    show "tr' = tr @ new1 @ ?w @ new2" using new1(1) new2(1) by simp
    show "transcribed_pages (new1 @ ?w @ new2) = concat (map (batch_pages sp sel bsz) (j # idxs))"
      using new1(2) new2(2) w(1)
      by (simp only: transcribed_pages_append batch_pages_enumerate list.map concat.simps append_Nil)
    show "alp' = alp @ fragments (new1 @ ?w @ new2)"
      using new1(3) new2(3) w(2) by (simp only: fragments_append append_Nil append_assoc)
    show "map fst (writes (new1 @ ?w @ new2))
          = (if 1 < NB then map (\<lambda>j. batch_output env out j) (j # idxs) else [])"
      using new1(4) new2(4) by (simp add: writes_append)
    show "paced (new1 @ ?w @ new2)"
      using new1(5) new2(5) w(3) by (intro paced_append)
  qed
qed

lemma upt_batches:
  assumes "k < nb"
  shows "[k * b..<min (k * b + b) L] @ [Suc k * b..<min (nb * b) L] = [k * b..<min (nb * b) (L::nat)]"
proof (cases "k * b + b \<le> L")
  case True
  from assms have "Suc k * b \<le> nb * b" by (simp add: Suc_leI mult_le_mono1 del: mult_Suc)
  then have "k * b + b \<le> min (nb * b) L" using True by simp
  then have "[k * b..<min (nb * b) L] = [k * b..<k * b + b] @ [k * b + b..<min (nb * b) L]"
    by (metis le_add1 le_Suc_ex upt_add_eq_append)
  then show ?thesis using True by (simp add: add.commute)
next
  case False
  from assms have "Suc k * b \<le> nb * b" by (simp add: Suc_leI mult_le_mono1 del: mult_Suc)
  then have "min (nb * b) L = L" "[Suc k * b..<min (nb * b) L] = []" using False by simp_all
  then show ?thesis using False by simp
qed

lemma batch_loop_writes:
  assumes b: "0 < b"
  shows "batch_loop env out sp sel (int b) NB (map int [k..<nb]) (alp, tr) = (alp', tr') \<Longrightarrow>
   \<exists>new. tr' = tr @ new
      \<and> transcribed_pages new = map (\<lambda>i. sp + int i) [k * b..<min (nb * b) (length sel)]
      \<and> alp' = alp @ fragments new
      \<and> writes new
          = (if 1 < NB
             then map (\<lambda>j. (batch_output env out (int j),
                            combine_latex_pages (take b (drop ((j - k) * b) (fragments new)))))
                      [k..<nb]
             else [])
      \<and> paced new"
proof (induction "nb - k" arbitrary: k alp tr)
  case 0
  then have nbk: "nb \<le> k" by simp
  then have "nb * b \<le> k * b" by (rule mult_le_mono1)
  then have "min (nb * b) (length sel) \<le> k * b" by (rule min.coboundedI1)
  then have "[k * b..<min (nb * b) (length sel)] = []" by simp
  with 0(2) nbk show ?case by (simp add: transcribed_pages_def fragments_def)
next
  case (Suc n)
  then have kn: "k < nb" and n: "n = nb - Suc k" by simp_all
  let ?L = "length sel"
  let ?name = "\<lambda>j. batch_output env out (int j)"
  let ?imgs = "py_slice sel (int k * int b) (min ((int k + 1) * int b) (int ?L))"
  have idx: "map int [k..<nb] = int k # map int [Suc k..<nb]"
    using kn by (simp add: upt_conv_Cons)
  obtain lp1 tr1 where pl:
    "page_loop (claude_client env) sp (int k * int b) (enumerate0 ?imgs) ([], tr) = (lp1, tr1)"
    by (cases "page_loop (claude_client env) sp (int k * int b) (enumerate0 ?imgs) ([], tr)")
  from page_loop_enumerate0[OF pl] obtain new1 where new1:
    "tr1 = tr @ new1"
    "transcribed_pages new1 = map (\<lambda>i. sp + int k * int b + int i) [0..<length ?imgs]"
    "lp1 = fragments new1" "writes new1 = []" "paced new1"
    by blast
  have pages1: "transcribed_pages new1 = map (\<lambda>i. sp + int i) [k * b..<min (k * b + b) ?L]"
    using new1(2) batch_pages_upt[of sp k b sel] by (simp only: py_slice_batch[OF b])
  let ?w = "if 1 < NB then [WriteFile (?name k) (combine_latex_pages lp1)] else []"
  from Suc.prems pl have
    "batch_loop env out sp sel (int b) NB (map int [Suc k..<nb]) (alp @ lp1, tr1 @ ?w) = (alp', tr')"
    unfolding idx by (simp add: Let_def split: if_splits)
  from Suc.hyps(1)[OF n this] obtain new2 where new2:
    "tr' = (tr1 @ ?w) @ new2"
    "transcribed_pages new2 = map (\<lambda>i. sp + int i) [Suc k * b..<min (nb * b) ?L]"
    "alp' = (alp @ lp1) @ fragments new2"
    "writes new2
       = (if 1 < NB
          then map (\<lambda>j. (?name j, combine_latex_pages (take b (drop ((j - Suc k) * b) (fragments new2)))))
                   [Suc k..<nb]
          else [])"
    "paced new2"
    by blast
  have w: "transcribed_pages ?w = []" "fragments ?w = []" "paced ?w"
    by (simp_all add: transcribed_pages_def fragments_def)
  let ?F1 = "fragments new1" and ?F2 = "fragments new2"
  have frags: "fragments (new1 @ ?w @ new2) = ?F1 @ ?F2"
    using w(2) by (simp only: fragments_append append_Nil)
  have len1: "length ?F1 = min (k * b + b) ?L - k * b"
    by (simp add: length_fragments pages1)
  have len2: "length ?F2 = min (nb * b) ?L - Suc k * b"
    by (simp add: length_fragments new2(2))
  have le1: "length ?F1 \<le> b" using len1 by simp
  have full: "length ?F1 = b \<or> ?F2 = []"
  proof (cases "k * b + b \<le> ?L")
    case True
    then show ?thesis using len1 by simp
  next
    case False
    then have "min (nb * b) ?L \<le> Suc k * b" by simp
    then show ?thesis using len2 by simp
  qed
  show ?case
  proof (intro exI[of _ "new1 @ ?w @ new2"] conjI)
    show "tr' = tr @ new1 @ ?w @ new2" using new1(1) new2(1) by simp
    show "transcribed_pages (new1 @ ?w @ new2) = map (\<lambda>i. sp + int i) [k * b..<min (nb * b) ?L]"
      using pages1 new2(2) w(1) upt_batches[OF kn, of b ?L]
      by (simp only: transcribed_pages_append append_Nil flip: map_append)
    show "alp' = alp @ fragments (new1 @ ?w @ new2)"
      using new1(3) new2(3) frags by simp
    show "paced (new1 @ ?w @ new2)"
      using new1(5) new2(5) w(3) by (intro paced_append)
    show "writes (new1 @ ?w @ new2)
          = (if 1 < NB
             then map (\<lambda>j. (?name j,
                     combine_latex_pages (take b (drop ((j - k) * b) (fragments (new1 @ ?w @ new2))))))
                   [k..<nb]
             else [])"
    proof (cases "1 < NB")
      case False
      then show ?thesis using new1(4) new2(4) by (simp add: writes_append)
    next
      case True
      have first: "take b (drop ((k - k) * b) (?F1 @ ?F2)) = ?F1"
        using take_first_batch[OF le1 full] by simp
      have later: "map (\<lambda>j. (?name j, combine_latex_pages (take b (drop ((j - k) * b) (?F1 @ ?F2)))))
                     [Suc k..<nb]
                 = map (\<lambda>j. (?name j, combine_latex_pages (take b (drop ((j - Suc k) * b) ?F2))))
                     [Suc k..<nb]"
      proof (rule map_cong[OF refl])
        fix j assume "j \<in> set [Suc k..<nb]"
        then have "k < j" by simp
        from take_later_batch[OF this le1 full]
        show "(?name j, combine_latex_pages (take b (drop ((j - k) * b) (?F1 @ ?F2))))
              = (?name j, combine_latex_pages (take b (drop ((j - Suc k) * b) ?F2)))"
          by (simp only:)
      qed
      have "writes (new1 @ ?w @ new2)
            = (?name k, combine_latex_pages ?F1) # writes new2"
        using True new1(3,4) by (simp add: writes_append)
      also have "\<dots> = map (\<lambda>j. (?name j, combine_latex_pages (take b (drop ((j - k) * b) (?F1 @ ?F2)))))
                         (k # [Suc k..<nb])"
        using True new2(4) first later by simp
      finally show ?thesis
        using True kn frags by (simp add: upt_conv_Cons)
    qed
  qed
qed

subsection \<open>A run that passes every check\<close>

lemma py_slice_range:
  assumes "0 \<le> s" "s \<le> e" "e < int (length xs)"
  shows "py_slice xs s (e + 1) = take (nat (e - s + 1)) (drop (nat s) xs)"
    and "length (py_slice xs s (e + 1)) = nat (e - s + 1)"
proof -
  have eq: "e + 1 - s = e - s + 1" by simp
  show "py_slice xs s (e + 1) = take (nat (e - s + 1)) (drop (nat s) xs)"
    using assms by (simp add: py_slice_def Let_def min_def eq)
  then show "length (py_slice xs s (e + 1)) = nat (e - s + 1)"
    using assms by (simp add: min_def) linarith
qed

lemma upto_as_map: "map (\<lambda>i. s + int i) [0..<n] = [s..s + int n - 1]"
proof (induction n)
  case 0
  then show ?case by simp
next
  case (Suc n)
  have "[s..s + int (Suc n) - 1] = [s..s + int n - 1] @ [s + int n]"
    using upto_rec2[of s "s + int n"] by simp
  with Suc show ?case by simp
qed

lemma batches_cover:
  assumes "0 < (b::int)" "0 \<le> L"
  shows "L \<le> (L + b - 1) div b * b"
proof -
  have "(L + b - 1) div b * b = (L + b - 1) - (L + b - 1) mod b"
    by (simp add: algebra_simps minus_mod_eq_mult_div)
  moreover have "(L + b - 1) mod b \<le> b - 1"
    using assms(1) pos_mod_bound[of b "L + b - 1"] by linarith
  ultimately show ?thesis by linarith
qed

lemma main_valid_unfold:
  assumes "check_environment (ANTHROPIC_API_KEY env)"
    and "path_exists env (arg_pdf_path args)"
    and "extract_pages_as_images (fitz_open env) (render_page env) (arg_pdf_path args) (arg_dpi args)
         = images"
    and "0 \<le> arg_start_page args"
    and "arg_start_page args \<le> end_page_of args images"
    and "end_page_of args images < int (length images)"
  defines "sel \<equiv> py_slice images (arg_start_page args) (end_page_of args images + 1)"
  defines "bsz \<equiv> batch_size_of args sel"
  defines "nb \<equiv> (int (length sel) + bsz - 1) div bsz"
  defines "run \<equiv> batch_loop env (output_path env args) (arg_start_page args) sel bsz nb
                    (range_py nb) ([], [])"
  shows "main env args
         = (Returned, snd run @ [WriteFile (output_path env args) (combine_latex_pages (fst run))])"
    and "length sel = nat (end_page_of args images - arg_start_page args + 1)"
    and "bsz \<noteq> 0"
proof -
  show len: "length sel = nat (end_page_of args images - arg_start_page args + 1)"
    unfolding sel_def using assms(4-6) by (rule py_slice_range(2))
  then have "0 < length sel" using assms(5) by simp
  then show nz: "bsz \<noteq> 0"
    by (auto simp: bsz_def batch_size_of_def split: option.splits)
  have ne: "images \<noteq> []" using assms(4-6) by auto
  show "main env args
         = (Returned, snd run @ [WriteFile (output_path env args) (combine_latex_pages (fst run))])"
    unfolding main_def
    using assms(1-6) ne nz
    by (simp add: Let_def case_prod_unfold sel_def[symmetric] bsz_def[symmetric]
                  nb_def[symmetric] run_def[symmetric])
qed

subsection \<open>The batches of a run\<close>

text \<open>
  With a positive batch size the batches, one after the other, are the selected range; with
  a negative one the loop reaches no page at all.
\<close>

lemma concat_batches:
  "concat (map (\<lambda>k. map f [k * b..<min (k * b + b) L]) [0..<nb]) = map f [0..<min (nb * b) (L::nat)]"
proof (induction nb)
  case 0
  then show ?case by simp
next
  case (Suc nb)
  have step: "[0..<min (nb * b) L] @ [nb * b..<min (nb * b + b) L] = [0..<min (nb * b + b) L]"
  proof (cases "nb * b \<le> L")
    case True
    then have "[0..<min (nb * b + b) L] = [0..<nb * b] @ [nb * b..<min (nb * b + b) L]"
      by (metis le_add1 le_Suc_ex upt_add_eq_append min.boundedI zero_le)
    then show ?thesis using True by simp
  next
    case False
    then show ?thesis by simp
  qed
  have "concat (map (\<lambda>k. map f [k * b..<min (k * b + b) L]) [0..<Suc nb])
        = map f [0..<min (nb * b) L] @ map f [nb * b..<min (nb * b + b) L]"
    using Suc by simp
  also have "\<dots> = map f [0..<min (nb * b + b) L]"
    by (simp only: step flip: map_append)
  finally show ?case by (simp add: add.commute)
qed

lemma partition_pos:
  assumes "0 < bsz" "int (length sel) \<le> nb * bsz"
  shows "concat (map (batch_pages sp sel bsz) (range_py nb)) = [sp..sp + int (length sel) - 1]"
proof -
  define b where "b = nat bsz"
  then have b: "0 < b" "bsz = int b" using assms(1) by simp_all
  have "0 \<le> nb"
  proof (rule ccontr)
    assume "\<not> 0 \<le> nb"
    then have "nb * bsz < 0" using assms(1) by (simp add: mult_neg_pos)
    then show False using assms(2) by simp
  qed
  then have cover: "length sel \<le> nat nb * b"
    using assms(2) b by (metis nat_int nat_mono nat_mult_distrib of_nat_0_le_iff)
  have "map (batch_pages sp sel bsz) (range_py nb)
        = map (\<lambda>k. map (\<lambda>i. sp + int i) [k * b..<min (k * b + b) (length sel)]) [0..<nat nb]"
    by (simp add: range_py_def b(2) batch_pages_pos[OF b(1)] o_def)
  then have "concat (map (batch_pages sp sel bsz) (range_py nb))
             = map (\<lambda>i. sp + int i) [0..<min (nat nb * b) (length sel)]"
    by (simp only: concat_batches)
  also have "\<dots> = map (\<lambda>i. sp + int i) [0..<length sel]"
    using cover by (simp add: min_def)
  finally show ?thesis by (simp only: upto_as_map)
qed

lemma num_batches_neg:
  assumes "bsz < 0" "0 < (L::int)"
  shows "(L + bsz - 1) div bsz \<le> 1"
proof -
  have "bsz \<le> L + bsz - 1" using assms(2) by simp
  then have "(L + bsz - 1) div bsz \<le> bsz div bsz" using assms(1) by (rule zdiv_mono1_neg)
  then show ?thesis using assms(1) by simp
qed

lemma partition_neg:
  assumes "bsz < 0" "0 < length sel"
  shows "concat (map (batch_pages sp sel bsz) (range_py ((int (length sel) + bsz - 1) div bsz))) = []"
proof -
  let ?L = "int (length sel)"
  let ?nb = "(?L + bsz - 1) div bsz"
  have le1: "?nb \<le> 1"
    using assms by (intro num_batches_neg) simp_all
  show ?thesis
  proof (cases "?nb \<le> 0")
    case True
    then show ?thesis by (simp add: range_py_def)
  next
    case False
    with le1 have one: "?nb = 1" by simp
    have "?L \<le> 1"
    proof (rule ccontr)
      assume "\<not> ?L \<le> 1"
      then have gt: "bsz < ?L + bsz - 1" by simp
      show False
      proof (cases "?L + bsz - 1 \<le> 0")
        case True
        then have "?nb = 0" using gt by (rule div_neg_neg_trivial)
        with one show False by simp
      next
        case False
        then have "?nb < 0" using assms(1) by (simp add: neg_imp_zdiv_neg_iff)
        with one show False by simp
      qed
    qed
    with assms(2) have L1: "length sel = 1" by linarith
    have "py_slice sel 0 (min bsz 1) = []"
      using assms(1) L1 by (simp add: py_slice_def Let_def min_def max_def)
    then have "batch_pages sp sel bsz 0 = []"
      using L1 by (simp add: batch_pages_def Let_def enumerate0_def)
    then show ?thesis using one by (simp add: range_py_def)
  qed
qed

subsection \<open>The events of a run that passes every check\<close>

lemma main_run:
  assumes "check_environment (ANTHROPIC_API_KEY env)"
    and "path_exists env (arg_pdf_path args)"
    and "extract_pages_as_images (fitz_open env) (render_page env) (arg_pdf_path args) (arg_dpi args)
         = images"
    and "0 \<le> arg_start_page args"
    and "arg_start_page args \<le> end_page_of args images"
    and "end_page_of args images < int (length images)"
  defines "sel \<equiv> py_slice images (arg_start_page args) (end_page_of args images + 1)"
  defines "bsz \<equiv> batch_size_of args sel"
  defines "nb \<equiv> (int (length sel) + bsz - 1) div bsz"
  shows "\<exists>tr. main env args
               = (Returned, tr @ [WriteFile (output_path env args) (combine_latex_pages (fragments tr))])
          \<and> transcribed_pages tr
               = concat (map (batch_pages (arg_start_page args) sel bsz) (range_py nb))
          \<and> map fst (writes tr)
               = (if 1 < nb then map (batch_output env (output_path env args)) (range_py nb) else [])
          \<and> paced tr
          \<and> (0 < bsz \<longrightarrow>
                writes tr
                = (if 1 < nb
                   then map (\<lambda>j. (batch_output env (output_path env args) (int j),
                                  combine_latex_pages
                                    (take (nat bsz) (drop (j * nat bsz) (fragments tr)))))
                            [0..<nat nb]
                   else []))"
proof -
  let ?out = "output_path env args"
  let ?s = "arg_start_page args"
  obtain alp tr where run: "batch_loop env ?out ?s sel bsz nb (range_py nb) ([], []) = (alp, tr)"
    by (cases "batch_loop env ?out ?s sel bsz nb (range_py nb) ([], [])")
  from main_valid_unfold(1)[OF assms(1-6)] run
  have m: "main env args = (Returned, tr @ [WriteFile ?out (combine_latex_pages alp)])"
    by (simp add: sel_def bsz_def nb_def)
  from batch_loop_general[OF run] have g:
    "transcribed_pages tr = concat (map (batch_pages ?s sel bsz) (range_py nb))"
    "alp = fragments tr"
    "map fst (writes tr) = (if 1 < nb then map (batch_output env ?out) (range_py nb) else [])"
    "paced tr"
    by auto
  have w: "writes tr
           = (if 1 < nb
              then map (\<lambda>j. (batch_output env ?out (int j),
                             combine_latex_pages (take (nat bsz) (drop (j * nat bsz) (fragments tr)))))
                       [0..<nat nb]
              else [])" if pos: "0 < bsz"
  proof -
    from pos have b: "0 < nat bsz" "bsz = int (nat bsz)" by simp_all
    from run have "batch_loop env ?out ?s sel (int (nat bsz)) nb (map int [0..<nat nb]) ([], []) = (alp, tr)"
      using b(2) by (simp add: range_py_def)
    from batch_loop_writes[OF b(1) this] show ?thesis by auto
  qed
  show ?thesis
    using m g w by (intro exI[of _ tr]) simp
qed

section \<open>The document assembler\<close>

lemma str_join_Cons: "str_join sep (p # ps) = p @ concat (map (\<lambda>q. sep @ q) ps)"
  by (induction ps arbitrary: p) simp_all

text \<open>
  Claim C5. For every list of fragments, \<open>combine_latex_pages\<close> returns the fixed preamble,
  then the fragments in their order with the page separator between neighbours, then the
  fixed postamble; every fragment is taken over character by character, nothing is escaped
  or changed.
\<close>

theorem combine_latex_pages_layout:
  "combine_latex_pages latex_pages
   = preamble
     @ (case latex_pages of [] \<Rightarrow> [] | p # ps \<Rightarrow> p @ concat (map (\<lambda>q. page_separator @ q) ps))
     @ postamble"
  by (cases latex_pages) (simp_all add: combine_latex_pages_def str_join_Cons)

text \<open>
  Claim C6. For all fragments \<open>A\<close>, \<open>B\<close> and \<open>C\<close>, the document assembled from \<open>[A, B]\<close>
  without its postamble is a strict prefix of the document assembled from \<open>[A, B, C]\<close>,
  and what follows that prefix is the separator, \<open>C\<close> and the postamble.
\<close>

theorem combine_latex_pages_extends:
  "strict_prefix
     (take (length (combine_latex_pages [A, B]) - length postamble) (combine_latex_pages [A, B]))
     (combine_latex_pages [A, B, C])
   \<and> combine_latex_pages [A, B, C]
     = take (length (combine_latex_pages [A, B]) - length postamble) (combine_latex_pages [A, B])
       @ page_separator @ C @ postamble"
proof -
  let ?body = "preamble @ A @ page_separator @ B"
  have two: "combine_latex_pages [A, B] = ?body @ postamble"
    by (simp add: combine_latex_pages_def)
  have stripped:
    "take (length (combine_latex_pages [A, B]) - length postamble) (combine_latex_pages [A, B]) = ?body"
    unfolding two by simp
  have three: "combine_latex_pages [A, B, C] = ?body @ page_separator @ C @ postamble"
    by (simp add: combine_latex_pages_def)
  have "page_separator @ C @ postamble \<noteq> []"
    by (simp add: page_separator_def)
  then have "strict_prefix ?body (?body @ page_separator @ C @ postamble)"
    by (simp add: strict_prefix_def prefix_def)
  then show ?thesis unfolding stripped three by simp
qed

section \<open>The page renderer\<close>

lemma render_loop_failure:
  "pg \<in> set doc \<Longrightarrow> render pg dpi = Inl e \<Longrightarrow> isl (render_loop render dpi doc acc)"
proof (induction doc arbitrary: acc)
  case Nil
  then show ?case by simp
next
  case (Cons p doc)
  then show ?case by (cases "render p dpi") auto
qed

text \<open>
  Claim C8. If \<open>fitz.open\<close> raises, or rendering any page of the document raises, then
  \<open>extract_pages_as_images\<close> returns the empty list, not the images collected before the
  failure, and \<open>main\<close>, which has passed its two earlier checks to get there, exits with
  status 1 without any further effect.
\<close>

theorem render_failure_returns_no_pages:
  assumes "check_environment (ANTHROPIC_API_KEY env)"
    and "path_exists env (arg_pdf_path args)"
    and "fitz_open env (arg_pdf_path args) = Inl e
         \<or> (fitz_open env (arg_pdf_path args) = Inr doc \<and> pg \<in> set doc
            \<and> render_page env pg (arg_dpi args) = Inl e)"
  shows "extract_pages_as_images (fitz_open env) (render_page env) (arg_pdf_path args) (arg_dpi args)
         = []
       \<and> main env args = (SysExit 1 NoImages, [])
       \<and> exit_code (fst (main env args)) = 1"
proof -
  let ?images = "extract_pages_as_images (fitz_open env) (render_page env) (arg_pdf_path args)
                   (arg_dpi args)"
  from assms(3) have empty: "?images = []"
  proof
    assume "fitz_open env (arg_pdf_path args) = Inl e"
    then show ?thesis by (simp add: extract_pages_as_images_def)
  next
    assume failed: "fitz_open env (arg_pdf_path args) = Inr doc \<and> pg \<in> set doc
                    \<and> render_page env pg (arg_dpi args) = Inl e"
    then have "isl (render_loop (render_page env) (arg_dpi args) doc [])"
      by (blast intro: render_loop_failure)
    then show ?thesis
      using failed by (auto simp: extract_pages_as_images_def split: sum.splits)
  qed
  then have "main env args = (SysExit 1 NoImages, [])"
    using assms(1,2) by (simp add: main_def Let_def)
  with empty show ?thesis by simp
qed

theorem render_failure_returns_no_pages_witness:
  "check_environment (ANTHROPIC_API_KEY broken_env)
   \<and> path_exists broken_env (arg_pdf_path example_args)
   \<and> fitz_open broken_env (arg_pdf_path example_args) = Inr [0, 1, 2]
   \<and> render_page broken_env 0 (arg_dpi example_args) = Inr 0
   \<and> render_page broken_env 1 (arg_dpi example_args) = Inl ''cannot render''
   \<and> extract_pages_as_images (fitz_open broken_env) (render_page broken_env)
        (arg_pdf_path example_args) (arg_dpi example_args) = []
   \<and> main broken_env example_args = (SysExit 1 NoImages, [])"
  using render_failure_returns_no_pages
          [where env = broken_env and args = example_args and doc = "[0, 1, 2]" and pg = 1
             and e = "''cannot render''"]
  by code_simp

section \<open>Runs that stop before the batch loop\<close>

lemma main_aborts:
  assumes "\<not> (check_environment (ANTHROPIC_API_KEY env) \<and> path_exists env (arg_pdf_path args)
             \<and> 0 \<le> arg_start_page args \<and> arg_start_page args \<le> end_page_of args images
             \<and> end_page_of args images < int (length images))"
    and "extract_pages_as_images (fitz_open env) (render_page env) (arg_pdf_path args) (arg_dpi args)
         = images"
  shows "snd (main env args) = []"
    and "exit_code (fst (main env args)) = 1"
    and "fst (main env args)
         = (if \<not> check_environment (ANTHROPIC_API_KEY env) then SysExit 1 MissingEnvironment
            else if \<not> path_exists env (arg_pdf_path args) then SysExit 1 FileNotFound
            else if images = [] then SysExit 1 NoImages
            else if arg_start_page args < 0 \<or> int (length images) \<le> arg_start_page args
              then SysExit 1 StartPageOutOfRange
            else SysExit 1 EndPageOutOfRange)"
  using assms unfolding main_def by (auto simp: Let_def)

text \<open>
  Claim C2. With \<open>pageCount\<close> the number of rendered images: if the start page is above the
  end page, or either of them lies outside \<open>[0, pageCount - 1]\<close>, the run causes no event at
  all, so the transcription function is never invoked, and it exits with status 1; when the
  checks before the range validation have passed, the exit is one of the two range errors.
\<close>

theorem invalid_range_makes_no_call:
  assumes "extract_pages_as_images (fitz_open env) (render_page env) (arg_pdf_path args) (arg_dpi args)
           = images"
    and "end_page_of args images < arg_start_page args
         \<or> arg_start_page args < 0 \<or> int (length images) \<le> arg_start_page args
         \<or> end_page_of args images < 0 \<or> int (length images) \<le> end_page_of args images"
  shows "snd (main env args) = []
       \<and> requests (snd (main env args)) = []
       \<and> exit_code (fst (main env args)) = 1
       \<and> (check_environment (ANTHROPIC_API_KEY env) \<and> path_exists env (arg_pdf_path args)
            \<and> images \<noteq> []
          \<longrightarrow> fst (main env args) = SysExit 1 StartPageOutOfRange
            \<or> fst (main env args) = SysExit 1 EndPageOutOfRange)"
proof -
  from assms(2) have
    "\<not> (check_environment (ANTHROPIC_API_KEY env) \<and> path_exists env (arg_pdf_path args)
        \<and> 0 \<le> arg_start_page args \<and> arg_start_page args \<le> end_page_of args images
        \<and> end_page_of args images < int (length images))"
    by linarith
  from main_aborts[OF this assms(1)] show ?thesis by simp
qed

theorem invalid_range_makes_no_call_witness:
  "extract_pages_as_images (fitz_open example_env) (render_page example_env)
     (arg_pdf_path (example_args \<lparr>arg_start_page := 2, arg_end_page := Some 1\<rparr>))
     (arg_dpi (example_args \<lparr>arg_start_page := 2, arg_end_page := Some 1\<rparr>)) = [0, 1, 2]
   \<and> end_page_of (example_args \<lparr>arg_start_page := 2, arg_end_page := Some 1\<rparr>) [0, 1, 2::nat]
       < arg_start_page (example_args \<lparr>arg_start_page := 2, arg_end_page := Some 1\<rparr>)
   \<and> main example_env (example_args \<lparr>arg_start_page := 2, arg_end_page := Some 1\<rparr>)
       = (SysExit 1 EndPageOutOfRange, [])"
  using invalid_range_makes_no_call
          [where env = example_env
             and args = "example_args \<lparr>arg_start_page := 2, arg_end_page := Some 1\<rparr>"
             and images = "[0, 1, 2]"]
  by code_simp

section \<open>Pacing\<close>

text \<open>
  Claim C9. In every run, each invocation of the transcription function is followed at once
  by \<open>time.sleep(1)\<close>: the pause follows every processed page of the batch loop, so that at
  least one time unit is slept between any two consecutive requests.
\<close>

theorem every_call_is_followed_by_a_sleep:
  "paced (snd (main env args))"
proof -
  let ?images = "extract_pages_as_images (fitz_open env) (render_page env) (arg_pdf_path args)
                   (arg_dpi args)"
  show ?thesis
  proof (cases "check_environment (ANTHROPIC_API_KEY env) \<and> path_exists env (arg_pdf_path args)
             \<and> 0 \<le> arg_start_page args \<and> arg_start_page args \<le> end_page_of args ?images
             \<and> end_page_of args ?images < int (length ?images)")
    case True
    then obtain tr where
      "main env args
       = (Returned, tr @ [WriteFile (output_path env args) (combine_latex_pages (fragments tr))])"
      "paced tr"
      using main_run[of env args ?images] by blast
    then show ?thesis by (simp add: paced_append)
  next
    case False
    from main_aborts(1)[OF False refl] show ?thesis by simp
  qed
qed

section \<open>The final document\<close>

lemma final_write:
  "transcribed_pages (tr @ [WriteFile p c]) = transcribed_pages tr"
  "fragments (tr @ [WriteFile p c]) = fragments tr"
  "writes (tr @ [WriteFile p c]) = writes tr @ [(p, c)]"
  by (simp_all add: transcribed_pages_def fragments_def requests_append writes_append)

lemma batch_size_of_pos:
  assumes "case arg_batch_size args of None \<Rightarrow> True | Some b \<Rightarrow> 0 \<le> b" "0 < length sel"
  shows "0 < batch_size_of args sel"
  using assms by (auto simp: batch_size_of_def split: option.splits)

lemma partition_selected:
  assumes "0 \<le> s" "s \<le> e" "e < int (length images)"
    and "0 < batch_size_of args (py_slice images s (e + 1))"
  defines "sel \<equiv> py_slice images s (e + 1)"
  shows "concat (map (batch_pages s sel (batch_size_of args sel))
           (range_py ((int (length sel) + batch_size_of args sel - 1) div batch_size_of args sel)))
         = [s..e]"
proof -
  let ?bsz = "batch_size_of args sel"
  have len: "length sel = nat (e - s + 1)"
    unfolding sel_def using assms(1-3) by (rule py_slice_range(2))
  have pos: "0 < ?bsz" using assms(4) by (simp add: sel_def)
  then have "int (length sel) \<le> (int (length sel) + ?bsz - 1) div ?bsz * ?bsz"
    by (intro batches_cover) simp_all
  from partition_pos[OF pos this, of s] show ?thesis
    using len assms(2) by simp
qed

text \<open>
  Claim C1, as the code has it. For every valid page range \<open>[s, e]\<close> and every batch size
  that is omitted, zero or positive, the run returns normally, the transcription function is
  invoked for the pages \<open>s, \<dots>, e\<close> in this order and for no other, and the last thing the
  run does is to write the final document, assembled from the \<open>e - s + 1\<close> fragments of
  these invocations in the same order.
\<close>

theorem final_document_has_every_page:
  assumes "check_environment (ANTHROPIC_API_KEY env)"
    and "path_exists env (arg_pdf_path args)"
    and "extract_pages_as_images (fitz_open env) (render_page env) (arg_pdf_path args) (arg_dpi args)
         = images"
    and "0 \<le> arg_start_page args"
    and "arg_start_page args \<le> end_page_of args images"
    and "end_page_of args images < int (length images)"
    and "case arg_batch_size args of None \<Rightarrow> True | Some b \<Rightarrow> 0 \<le> b"
  shows "fst (main env args) = Returned
       \<and> transcribed_pages (snd (main env args)) = [arg_start_page args..end_page_of args images]
       \<and> length (fragments (snd (main env args)))
           = nat (end_page_of args images - arg_start_page args + 1)
       \<and> last (snd (main env args))
           = WriteFile (output_path env args)
               (combine_latex_pages (fragments (snd (main env args))))"
proof -
  let ?s = "arg_start_page args" and ?e = "end_page_of args images"
  let ?sel = "py_slice images ?s (?e + 1)"
  have "0 < length ?sel" using py_slice_range(2)[OF assms(4-6)] assms(5) by simp
  with assms(7) have pos: "0 < batch_size_of args ?sel" by (rule batch_size_of_pos)
  from main_run[OF assms(1-6)] obtain tr where tr:
    "main env args
     = (Returned, tr @ [WriteFile (output_path env args) (combine_latex_pages (fragments tr))])"
    "transcribed_pages tr
     = concat (map (batch_pages ?s ?sel (batch_size_of args ?sel))
         (range_py ((int (length ?sel) + batch_size_of args ?sel - 1) div batch_size_of args ?sel)))"
    by blast
  have pages: "transcribed_pages tr = [?s..?e]"
    unfolding tr(2) using assms(4-6) pos by (rule partition_selected)
  have "length (fragments tr) = nat (?e - ?s + 1)"
    by (simp add: length_fragments pages)
  with tr(1) pages show ?thesis
    by (simp add: final_write)
qed

theorem final_document_has_every_page_witness:
  "check_environment (ANTHROPIC_API_KEY example_env)
   \<and> path_exists example_env (arg_pdf_path example_args)
   \<and> extract_pages_as_images (fitz_open example_env) (render_page example_env)
        (arg_pdf_path example_args) (arg_dpi example_args) = [0, 1, 2]
   \<and> arg_start_page example_args = 0
   \<and> end_page_of example_args [0, 1, 2::nat] = 2
   \<and> arg_batch_size example_args = Some 2
   \<and> fst (main example_env example_args) = Returned
   \<and> transcribed_pages (snd (main example_env example_args)) = [0, 1, 2]
   \<and> length (fragments (snd (main example_env example_args))) = 3
   \<and> last (snd (main example_env example_args))
       = WriteFile ''out.tex'' (combine_latex_pages (fragments (snd (main example_env example_args))))"
  using final_document_has_every_page
          [where env = example_env and args = example_args and images = "[0, 1, 2]"]
  by code_simp

text \<open>
  The claim as it is stated, for every batch size, fails for a negative one: on the document
  of three pages with the range 0 to 2 and \<open>--batch-size -1\<close> the number of batches is
  \<open>(3 - 1 - 1) // -1 = -1\<close>, the batch loop does not run, and the final document is assembled
  from no fragment at all.
\<close>

theorem final_document_negative_batch_size:
  "check_environment (ANTHROPIC_API_KEY example_env)
   \<and> path_exists example_env (arg_pdf_path (example_args \<lparr>arg_batch_size := Some (- 1)\<rparr>))
   \<and> extract_pages_as_images (fitz_open example_env) (render_page example_env)
        (arg_pdf_path (example_args \<lparr>arg_batch_size := Some (- 1)\<rparr>))
        (arg_dpi (example_args \<lparr>arg_batch_size := Some (- 1)\<rparr>)) = [0, 1, 2]
   \<and> arg_start_page (example_args \<lparr>arg_batch_size := Some (- 1)\<rparr>) = 0
   \<and> end_page_of (example_args \<lparr>arg_batch_size := Some (- 1)\<rparr>) [0, 1, 2::nat] = 2
   \<and> main example_env (example_args \<lparr>arg_batch_size := Some (- 1)\<rparr>)
       = (Returned, [WriteFile ''out.tex'' (combine_latex_pages [])])
   \<and> fragments (snd (main example_env (example_args \<lparr>arg_batch_size := Some (- 1)\<rparr>))) = []
   \<and> length (fragments (snd (main example_env (example_args \<lparr>arg_batch_size := Some (- 1)\<rparr>))))
       \<noteq> nat (2 - 0 + 1)"
  by code_simp

section \<open>The batch partition\<close>

text \<open>
  Claim C4, as the code has it. For every selected page range \<open>[s, e]\<close> and every batch size
  that is omitted, zero or positive, the batches are computed without error, and the page
  numbers of all batches, concatenated in batch order, are \<open>s, \<dots>, e\<close>: every page of the
  range occurs, and none occurs twice. By \<open>main_run\<close> these are the pages the run hands to
  the transcription function.
\<close>

theorem batch_partition_covers_range:
  assumes "0 \<le> s" "s \<le> e" "e < int (length images)"
    and "case arg_batch_size args of None \<Rightarrow> True | Some b \<Rightarrow> 0 \<le> b"
  shows "case batch_partition s (py_slice images s (e + 1)) args of
           Inl exn \<Rightarrow> False
         | Inr batches \<Rightarrow> concat batches = [s..e] \<and> distinct (concat batches)"
proof -
  let ?sel = "py_slice images s (e + 1)"
  have "0 < length ?sel" using py_slice_range(2)[OF assms(1-3)] assms(2) by simp
  with assms(4) have pos: "0 < batch_size_of args ?sel" by (rule batch_size_of_pos)
  from partition_selected[OF assms(1-3) pos] pos show ?thesis
    by (simp add: batch_partition_def Let_def)
qed

theorem batch_partition_covers_range_witness:
  "(0::int) \<le> 0 \<and> (0::int) \<le> 2 \<and> 2 < int (length [0, 1, 2::nat])
   \<and> arg_batch_size example_args = Some 2
   \<and> batch_partition 0 (py_slice [0, 1, 2::nat] 0 (2 + 1)) example_args = Inr [[0, 1], [2]]
   \<and> concat [[0, 1], [2]] = [0..2::int]"
  using batch_partition_covers_range [where s = 0 and e = 2 and images = "[0, 1, 2::nat]"
          and args = example_args]
  by code_simp

text \<open>
  For every batch size the claim fails: with \<open>--batch-size -1\<close> on the range 0 to 2 there is
  no batch, and the concatenation is empty.
\<close>

theorem batch_partition_negative_batch_size:
  "(0::int) \<le> 0 \<and> (0::int) \<le> 2 \<and> 2 < int (length [0, 1, 2::nat])
   \<and> batch_partition 0 (py_slice [0, 1, 2::nat] 0 (2 + 1))
         (example_args \<lparr>arg_batch_size := Some (- 1)\<rparr>) = Inr []
   \<and> concat ([] :: int list list) \<noteq> [0..2]"
  by code_simp

section \<open>A batch size of zero\<close>

text \<open>
  Claim C10. \<open>--batch-size 0\<close> behaves as if the option were omitted: the two runs are equal
  in status and in every event. In a run that passes the checks, the value \<open>0\<close> is replaced
  by the length of the selected range, the range is one single batch, and the only file
  written is the final document.
\<close>

theorem zero_batch_size_is_the_default:
  "main env (args \<lparr>arg_batch_size := Some 0\<rparr>) = main env (args \<lparr>arg_batch_size := None\<rparr>)
   \<and> (check_environment (ANTHROPIC_API_KEY env) \<and> path_exists env (arg_pdf_path args)
        \<and> extract_pages_as_images (fitz_open env) (render_page env) (arg_pdf_path args)
             (arg_dpi args) = images
        \<and> 0 \<le> arg_start_page args \<and> arg_start_page args \<le> end_page_of args images
        \<and> end_page_of args images < int (length images)
      \<longrightarrow> batch_size_of (args \<lparr>arg_batch_size := Some 0\<rparr>)
             (py_slice images (arg_start_page args) (end_page_of args images + 1))
           = end_page_of args images - arg_start_page args + 1
        \<and> batch_partition (arg_start_page args)
             (py_slice images (arg_start_page args) (end_page_of args images + 1))
             (args \<lparr>arg_batch_size := Some 0\<rparr>)
           = Inr [[arg_start_page args..end_page_of args images]]
        \<and> writes (snd (main env (args \<lparr>arg_batch_size := Some 0\<rparr>)))
           = [(output_path env args,
               combine_latex_pages (fragments (snd (main env (args \<lparr>arg_batch_size := Some 0\<rparr>)))))])"
proof (intro conjI impI)
  have "output_path env (args \<lparr>arg_batch_size := Some 0\<rparr>)
        = output_path env (args \<lparr>arg_batch_size := None\<rparr>)"
    by (simp add: output_path_def split: option.splits)
  moreover have "\<And>imgs::'b list. end_page_of (args \<lparr>arg_batch_size := Some 0\<rparr>) imgs
        = end_page_of (args \<lparr>arg_batch_size := None\<rparr>) imgs"
    by (simp add: end_page_of_def split: option.splits)
  moreover have "\<And>sel::'b list. batch_size_of (args \<lparr>arg_batch_size := Some 0\<rparr>) sel
        = batch_size_of (args \<lparr>arg_batch_size := None\<rparr>) sel"
    by (simp add: batch_size_of_def)
  ultimately
  show "main env (args \<lparr>arg_batch_size := Some 0\<rparr>) = main env (args \<lparr>arg_batch_size := None\<rparr>)"
    by (simp add: main_def Let_def)
next
  let ?a = "args \<lparr>arg_batch_size := Some 0\<rparr>"
  let ?s = "arg_start_page args" and ?e = "end_page_of args images"
  let ?sel = "py_slice images ?s (?e + 1)"
  assume valid: "check_environment (ANTHROPIC_API_KEY env) \<and> path_exists env (arg_pdf_path args)
        \<and> extract_pages_as_images (fitz_open env) (render_page env) (arg_pdf_path args)
             (arg_dpi args) = images
        \<and> 0 \<le> arg_start_page args \<and> arg_start_page args \<le> end_page_of args images
        \<and> end_page_of args images < int (length images)"
  then have range: "0 \<le> ?s" "?s \<le> ?e" "?e < int (length images)" by simp_all
  have len: "int (length ?sel) = ?e - ?s + 1"
    using py_slice_range(2)[OF range] range(2) by simp
  have same: "arg_start_page ?a = ?s" "end_page_of ?a images = ?e" "arg_pdf_path ?a = arg_pdf_path args"
    "arg_dpi ?a = arg_dpi args" "output_path env ?a = output_path env args"
    by (simp_all add: end_page_of_def output_path_def split: option.splits)
  show bsz: "batch_size_of ?a ?sel = ?e - ?s + 1"
    using len by (simp add: batch_size_of_def)
  have one: "(int (length ?sel) + batch_size_of ?a ?sel - 1) div batch_size_of ?a ?sel = 1"
  proof -
    have "0 < ?e - ?s + 1" using range(2) by simp
    then have "(?e - ?s + 1 + (?e - ?s + 1) - 1) div (?e - ?s + 1) = 1"
      by (intro int_div_pos_eq[where r = "?e - ?s"]) simp_all
    then show ?thesis by (simp only: bsz len)
  qed
  have pos: "0 < batch_size_of ?a ?sel" using bsz range(2) by simp
  from partition_selected[OF range, of ?a] pos one
  have single: "batch_pages ?s ?sel (batch_size_of ?a ?sel) 0 = [?s..?e]"
    by (simp add: range_py_def)
  show "batch_partition ?s ?sel ?a = Inr [[?s..?e]]"
    using pos one single by (simp add: batch_partition_def Let_def range_py_def)
  from main_run[of env ?a images] valid same obtain tr where tr:
    "main env ?a
     = (Returned, tr @ [WriteFile (output_path env args) (combine_latex_pages (fragments tr))])"
    "map fst (writes tr)
     = (if 1 < (int (length ?sel) + batch_size_of ?a ?sel - 1) div batch_size_of ?a ?sel
        then map (batch_output env (output_path env args))
               (range_py ((int (length ?sel) + batch_size_of ?a ?sel - 1) div batch_size_of ?a ?sel))
        else [])"
    by auto
  from tr(2) one have "writes tr = []" by simp
  with tr(1) show "writes (snd (main env ?a))
           = [(output_path env args, combine_latex_pages (fragments (snd (main env ?a))))]"
    by (simp add: final_write)
qed

theorem zero_batch_size_is_the_default_witness:
  "check_environment (ANTHROPIC_API_KEY example_env)
   \<and> path_exists example_env (arg_pdf_path example_args)
   \<and> extract_pages_as_images (fitz_open example_env) (render_page example_env)
        (arg_pdf_path example_args) (arg_dpi example_args) = [0, 1, 2]
   \<and> 0 \<le> arg_start_page example_args
   \<and> arg_start_page example_args \<le> end_page_of example_args [0, 1, 2::nat]
   \<and> end_page_of example_args [0, 1, 2::nat] < int (length [0, 1, 2::nat])
   \<and> main example_env (example_args \<lparr>arg_batch_size := Some 0\<rparr>)
       = main example_env (example_args \<lparr>arg_batch_size := None\<rparr>)
   \<and> batch_partition 0 [0, 1, 2::nat] (example_args \<lparr>arg_batch_size := Some 0\<rparr>) = Inr [[0, 1, 2]]
   \<and> map fst (writes (snd (main example_env (example_args \<lparr>arg_batch_size := Some 0\<rparr>))))
       = [''out.tex'']"
  using zero_batch_size_is_the_default
          [where env = example_env and args = example_args and images = "[0, 1, 2]"]
  by code_simp

section \<open>Intermediate files\<close>

text \<open>
  Claim C7. In a run that passes the checks with a batch size \<open>b\<close>, as line 191 computes
  it, for which the number of batches of line 192 is greater than one, the pages of the range
  are transcribed in order and the files written are, in this order,
  one intermediate file per batch, whose name is the output path without its extension
  followed by \<open>_batch\<close>, the 1-based index of the batch and \<open>.tex\<close>, and whose content is
  the complete document assembled from the fragments of that batch (the next \<open>b\<close> fragments
  of the run), and then the final file with all fragments. The witness is the scenario of
  the specification: three pages, batch size 2, range 0 to 2, hence the batches \<open>[0, 1]\<close>
  and \<open>[2]\<close>, two intermediate files and the final file with the three fragments in page
  order.
\<close>

theorem intermediate_file_per_batch:
  assumes "check_environment (ANTHROPIC_API_KEY env)"
    and "path_exists env (arg_pdf_path args)"
    and "extract_pages_as_images (fitz_open env) (render_page env) (arg_pdf_path args) (arg_dpi args)
         = images"
    and "0 \<le> arg_start_page args"
    and "arg_start_page args \<le> end_page_of args images"
    and "end_page_of args images < int (length images)"
    and "batch_size_of args
           (py_slice images (arg_start_page args) (end_page_of args images + 1)) = b"
    and "1 < (end_page_of args images - arg_start_page args + 1 + b - 1) div b"
  shows "transcribed_pages (snd (main env args)) = [arg_start_page args..end_page_of args images]
       \<and> writes (snd (main env args))
         = map (\<lambda>j. (fst (path_splitext env (output_path env args)) @ ''_batch'' @ str (int j + 1)
                        @ ''.tex'',
                      combine_latex_pages
                        (take (nat b) (drop (j * nat b) (fragments (snd (main env args)))))))
             [0..<nat ((end_page_of args images - arg_start_page args + 1 + b - 1) div b)]
           @ [(output_path env args, combine_latex_pages (fragments (snd (main env args))))]"
proof -
  let ?s = "arg_start_page args" and ?e = "end_page_of args images"
  let ?sel = "py_slice images ?s (?e + 1)"
  let ?nb = "(?e - ?s + 1 + b - 1) div b"
  have len: "int (length ?sel) = ?e - ?s + 1"
    using py_slice_range(2)[OF assms(4-6)] assms(5) by simp
  have pos: "0 < b"
  proof (rule ccontr)
    assume "\<not> 0 < b"
    moreover have "b \<noteq> 0" using main_valid_unfold(3)[OF assms(1-6)] assms(7) by simp
    ultimately have "b < 0" by simp
    moreover have "0 < ?e - ?s + 1" using assms(5) by simp
    ultimately have "?nb \<le> 1" by (rule num_batches_neg)
    with assms(8) show False by simp
  qed
  from main_run[OF assms(1-6)] obtain tr where tr:
    "main env args
     = (Returned, tr @ [WriteFile (output_path env args) (combine_latex_pages (fragments tr))])"
    "transcribed_pages tr = concat (map (batch_pages ?s ?sel b) (range_py ?nb))"
    "writes tr
     = (if 1 < ?nb
        then map (\<lambda>j. (batch_output env (output_path env args) (int j),
                       combine_latex_pages (take (nat b) (drop (j * nat b) (fragments tr)))))
               [0..<nat ?nb]
        else [])"
    unfolding assms(7) len using pos by blast
  have pages: "transcribed_pages tr = [?s..?e]"
    using partition_selected[OF assms(4-6), of args] pos tr(2) by (simp add: assms(7) len)
  show ?thesis
    using assms(8) pages tr(1,3) by (simp add: final_write batch_output_def)
qed

theorem intermediate_file_per_batch_witness:
  "check_environment (ANTHROPIC_API_KEY example_env)
   \<and> path_exists example_env (arg_pdf_path example_args)
   \<and> extract_pages_as_images (fitz_open example_env) (render_page example_env)
        (arg_pdf_path example_args) (arg_dpi example_args) = [0, 1, 2]
   \<and> arg_start_page example_args = 0
   \<and> end_page_of example_args [0, 1, 2::nat] = 2
   \<and> batch_size_of example_args (py_slice [0, 1, 2::nat] 0 (2 + 1)) = 2
   \<and> (2 - 0 + 1 + 2 - 1) div 2 = (2::int)
   \<and> batch_partition 0 [0, 1, 2::nat] example_args = Inr [[0, 1], [2]]
   \<and> transcribed_pages (snd (main example_env example_args)) = [0, 1, 2]
   \<and> writes (snd (main example_env example_args))
       = [(''out_batch1.tex'',
           combine_latex_pages
             [''page 0'', ''% Error processing page 2\<newline>% timeout\<newline>\<newline>'']),
          (''out_batch2.tex'', combine_latex_pages [''page 2'']),
          (''out.tex'',
           combine_latex_pages
             [''page 0'', ''% Error processing page 2\<newline>% timeout\<newline>\<newline>'', ''page 2''])]"
  using intermediate_file_per_batch
          [where env = example_env and args = example_args and images = "[0, 1, 2]" and b = 2]
  by code_simp

section \<open>A page whose transcription fails\<close>

text \<open>
  In every run, with any batch size, either no page is handed to the transcription function
  or the pages of the whole range are, in order, and the run ends by writing the final
  document.
\<close>

lemma drop_upto: "drop n [s..e] = [s + int n..e]"
proof (induction n arbitrary: s)
  case 0
  then show ?case by simp
next
  case (Suc n)
  show ?case
  proof (cases "s \<le> e")
    case True
    then have "drop (Suc n) [s..e] = drop n [s + 1..e]" by (simp add: upto_rec1)
    also have "\<dots> = [s + 1 + int n..e]" by (rule Suc.IH)
    finally show ?thesis by (simp add: algebra_simps)
  next
    case False
    then show ?thesis by simp
  qed
qed

lemma main_pages_cases:
  fixes env :: "('pg, 'img) env"
  defines "images \<equiv> \<lambda>env args. extract_pages_as_images (fitz_open env) (render_page env)
                       (arg_pdf_path args) (arg_dpi args)"
  shows "transcribed_pages (snd (main env args)) = []
       \<or> (transcribed_pages (snd (main env args))
            = [arg_start_page args..end_page_of args (images env args)]
          \<and> last (snd (main env args))
            = WriteFile (output_path env args)
                (combine_latex_pages (fragments (snd (main env args)))))"
proof (cases "check_environment (ANTHROPIC_API_KEY env) \<and> path_exists env (arg_pdf_path args)
             \<and> 0 \<le> arg_start_page args \<and> arg_start_page args \<le> end_page_of args (images env args)
             \<and> end_page_of args (images env args) < int (length (images env args))")
  case False
  from main_aborts(1)[OF False] show ?thesis
    by (simp add: images_def transcribed_pages_def)
next
  case True
  let ?s = "arg_start_page args" and ?e = "end_page_of args (images env args)"
  let ?sel = "py_slice (images env args) ?s (?e + 1)"
  let ?bsz = "batch_size_of args ?sel"
  from True have valid:
    "check_environment (ANTHROPIC_API_KEY env)" "path_exists env (arg_pdf_path args)"
    "extract_pages_as_images (fitz_open env) (render_page env) (arg_pdf_path args) (arg_dpi args)
     = images env args"
    "0 \<le> ?s" "?s \<le> ?e" "?e < int (length (images env args))"
    by (simp_all add: images_def)
  from main_run[OF valid] obtain tr where tr:
    "main env args
     = (Returned, tr @ [WriteFile (output_path env args) (combine_latex_pages (fragments tr))])"
    "transcribed_pages tr
     = concat (map (batch_pages ?s ?sel ?bsz) (range_py ((int (length ?sel) + ?bsz - 1) div ?bsz)))"
    by blast
  have nz: "?bsz \<noteq> 0" using main_valid_unfold(3)[OF valid] .
  have len: "0 < length ?sel" using py_slice_range(2)[OF valid(4-6)] valid(5) by simp
  show ?thesis
  proof (cases "0 < ?bsz")
    case True
    from partition_selected[OF valid(4-6) True] tr show ?thesis
      by (simp add: final_write)
  next
    case False
    with nz have "?bsz < 0" by simp
    from partition_neg[OF this len] tr show ?thesis
      by (simp add: final_write)
  qed
qed

text \<open>
  Claim C3. If the transcription call for page \<open>k\<close> raises an exception with message
  \<open>msg\<close>, the transcription function returns, and what it returns is the comment
  \<open>% Error processing page\<close> with the 1-based page number \<open>k + 1\<close>, followed on the next
  line by \<open>%\<close> and the message. In a run in which the call number \<open>i\<close> is such a failed
  call for page \<open>k\<close>, that comment is fragment number \<open>i\<close> of the final document, the
  pages handed to the transcription function are those of the whole range, and the calls
  after the failed one are those for the pages \<open>k + 1\<close> up to the end page: no page after
  \<open>k\<close> is skipped.
\<close>

theorem failed_transcription_is_absorbed:
  fixes env :: "('pg, 'img) env" and claude :: "'i client"
  shows
    "(claude tr img k = Inl msg \<longrightarrow>
        translate_and_convert_to_latex_with_claude_vision claude img k tr
        = (''% Error processing page '' @ str (k + 1) @ ''\<newline>% '' @ msg @ ''\<newline>\<newline>'',
           tr @ [Transcribe k (Inl msg)]))
     \<and> (i < length (requests (snd (main env args)))
          \<and> requests (snd (main env args)) ! i = (k, Inl msg) \<longrightarrow>
        fragments (snd (main env args)) ! i
        = ''% Error processing page '' @ str (k + 1) @ ''\<newline>% '' @ msg @ ''\<newline>\<newline>''
        \<and> last (snd (main env args))
          = WriteFile (output_path env args) (combine_latex_pages (fragments (snd (main env args))))
        \<and> transcribed_pages (snd (main env args))
          = [arg_start_page args..
             end_page_of args (extract_pages_as_images (fitz_open env) (render_page env)
                                 (arg_pdf_path args) (arg_dpi args))]
        \<and> drop (Suc i) (transcribed_pages (snd (main env args)))
          = [k + 1..
             end_page_of args (extract_pages_as_images (fitz_open env) (render_page env)
                                 (arg_pdf_path args) (arg_dpi args))])"
proof (intro conjI impI)
  assume "claude tr img k = Inl msg"
  then show "translate_and_convert_to_latex_with_claude_vision claude img k tr
        = (''% Error processing page '' @ str (k + 1) @ ''\<newline>% '' @ msg @ ''\<newline>\<newline>'',
           tr @ [Transcribe k (Inl msg)])"
    by (simp add: translate_and_convert_to_latex_with_claude_vision_def transcription_result_def)
next
  let ?T = "snd (main env args)"
  let ?s = "arg_start_page args"
  let ?e = "end_page_of args (extract_pages_as_images (fitz_open env) (render_page env)
                                 (arg_pdf_path args) (arg_dpi args))"
  assume req: "i < length (requests ?T) \<and> requests ?T ! i = (k, Inl msg)"
  then have i: "i < length (transcribed_pages ?T)" and k: "transcribed_pages ?T ! i = k"
    by (simp_all add: transcribed_pages_def)
  from req show "fragments ?T ! i
        = ''% Error processing page '' @ str (k + 1) @ ''\<newline>% '' @ msg @ ''\<newline>\<newline>''"
    by (simp add: fragments_def transcription_result_def)
  from i have "transcribed_pages ?T \<noteq> []" by auto
  with main_pages_cases[of env args] have
    pages: "transcribed_pages ?T = [?s..?e]"
    and final: "last ?T = WriteFile (output_path env args) (combine_latex_pages (fragments ?T))"
    by auto
  show "last ?T = WriteFile (output_path env args) (combine_latex_pages (fragments ?T))"
    by (rule final)
  show "transcribed_pages ?T = [?s..?e]" by (rule pages)
  from i pages have "?s + int i \<le> ?e" by simp
  then have "[?s..?e] ! i = ?s + int i" by (rule nth_upto)
  with k pages have "k = ?s + int i" by simp
  then show "drop (Suc i) (transcribed_pages ?T) = [k + 1..?e]"
    by (simp add: pages drop_upto algebra_simps)
qed

theorem failed_transcription_is_absorbed_witness:
  "example_client [] 1 1 = Inl ''timeout''
   \<and> translate_and_convert_to_latex_with_claude_vision example_client 1 1 []
     = (''% Error processing page 2\<newline>% timeout\<newline>\<newline>'', [Transcribe 1 (Inl ''timeout'')])
   \<and> 1 < length (requests (snd (main example_env example_args)))
   \<and> requests (snd (main example_env example_args)) ! 1 = (1, Inl ''timeout'')
   \<and> fragments (snd (main example_env example_args)) ! 1
     = ''% Error processing page 2\<newline>% timeout\<newline>\<newline>''
   \<and> transcribed_pages (snd (main example_env example_args)) = [0, 1, 2]
   \<and> drop (Suc 1) (transcribed_pages (snd (main example_env example_args))) = [2]"
  using failed_transcription_is_absorbed
          [where claude = example_client and tr = "[]" and img = 1 and k = 1 and msg = "''timeout''"
             and env = example_env and args = example_args and i = 1]
  by code_simp

end
